theory Spec2Isabelle
  imports Complex_Main "HOL-Library.Char_ord" "HOL-Library.List_Lexorder"
begin

section \<open>Data model of the log viewer (script.js, class CTLogViewer)\<close>

text \<open>
  \<open>script.js\<close> holds the class twice, a later and an earlier revision. The functions
  modelled here are the same in both, except that the earlier one has no
  \<open>isGroupSelectionActive\<close> flag (so its \<open>syncScrollPosition\<close> tests \<open>syncScroll\<close> only,
  and its selection sets no flag). The model follows the later revision.

  The three panels are the keys of \<open>this.logs\<close>; \<open>Object.keys(this.logs)\<close> and
  \<open>Object.values(this.logs)\<close> enumerate them in the order bt, out, rs.
\<close>

datatype panel = bt | out | rs

definition panels :: "panel list" where
  "panels = [bt, out, rs]"

text \<open>
  A log line as the backend delivers it. \<open>timestamp\<close> and \<open>secondKey\<close> may be absent
  (\<open>None\<close>); the level is the string the code compares with \<open>'error'\<close> and
  \<open>'warning'\<close>.
\<close>

record logline =
  line_id :: nat
  lineNumber :: nat
  timestamp :: "string option"
  secondKey :: "string option"
  level :: string
  content :: string
  original :: string


text \<open>The test \<open>line.level === 'error' || line.level === 'warning'\<close>.\<close>

definition isErrorOrWarning :: "logline \<Rightarrow> bool" where
  "isErrorOrWarning l = (level l = ''error'' \<or> level l = ''warning'')"

text \<open>An entry of \<open>this.errorPositions[panel]\<close>: \<open>{lineNumber, level, offset}\<close>.\<close>

datatype error_position =
  ErrorPosition (ep_lineNumber: nat) (ep_level: string) (ep_offset: nat)

text \<open>
  What a \<open>fetch\<close> settles to: the promise rejects (transport error), or a response
  arrives with a status and, by the contract of \<open>/api/logs\<close>, a body whose \<open>lines\<close>
  field is a list of log lines. \<open>response.ok\<close> is true for the statuses 200 to 299.
\<close>

datatype response = TransportError string | HttpResponse nat "logline list"

datatype fetch_error = Transport string | HttpStatus nat

definition fetchOutcome :: "response \<Rightarrow> fetch_error + logline list" where
  "fetchOutcome r =
     (case r of
        TransportError m \<Rightarrow> Inl (Transport m)
      | HttpResponse status ls \<Rightarrow>
          if 200 \<le> status \<and> status \<le> 299 then Inr ls else Inl (HttpStatus status))"

text \<open>
  The query of a request to \<open>/api/logs\<close>: a page request carries panel, offset, limit and
  the search term when one is given; a targeted request carries panel, second and limit.
\<close>

datatype request =
    PageRequest panel nat nat "string option"
  | SecondRequest panel string nat
  | StatsRequest

subsection \<open>The rendered content of a panel\<close>

text \<open>
  A rendered log line (\<open>createLogLineElement\<close>): its class is the level, its data
  attributes are the line id and the second key it was created with, its text is the
  displayed content, and it carries a click handler when the key is truthy.
\<close>

datatype line_element =
  LineElement (le_class: string) (le_lineId: nat) (le_secondKey: "string option")
    (le_text: string) (le_clickable: bool)

datatype node =
    GroupHeader string string nat
  | GroupEvents string "line_element list"
  | LineNode line_element
  | LoadFailed fetch_error
  | PanelLoading string
  | PanelError string

text \<open>
  A panel's element: its child nodes, and the key whose nodes carry the class
  \<open>selected-second\<close> (set by \<open>highlightSecondInPanel\<close>, lost when the content is
  rebuilt). Scroll geometry belongs to the layout engine and is read separately.
\<close>

record dom_element =
  children :: "node list"
  highlighted :: "string option"

record panel_state =
  element :: dom_element
  visibleLines :: "logline list"
  currentOffset :: nat
  totalLines :: nat
  loading :: bool
  searchResults :: "nat list"

section \<open>Render engine\<close>

text \<open>\<open>secondKey.replace('T', ' ')\<close> replaces the first \<open>T\<close> only.\<close>

fun replaceFirstT :: "string \<Rightarrow> string" where
  "replaceFirstT [] = []"
| "replaceFirstT (c # cs) = (if c = CHR ''T'' then CHR '' '' # cs else c # replaceFirstT cs)"

definition formatSecondKey :: "string \<Rightarrow> string" where
  "formatSecondKey k = (if CHR ''T'' \<in> set k then replaceFirstT k else k)"

text \<open>
  \<open>line.content.replace(line.timestamp, '').trim()\<close>: the first occurrence of the
  timestamp is removed, then white space is trimmed at both ends (the white space of
  ASCII; the strings here are byte strings).
\<close>

fun removeFirst :: "string \<Rightarrow> string \<Rightarrow> string" where
  "removeFirst pat [] = []"
| "removeFirst pat (c # cs) =
     (if take (length pat) (c # cs) = pat then drop (length pat) (c # cs)
      else c # removeFirst pat cs)"

definition isSpace :: "char \<Rightarrow> bool" where
  "isSpace c = (c \<in> set [CHR '' '', CHR 0x09, CHR 0x0A, CHR 0x0B, CHR 0x0C, CHR 0x0D])"

definition trim :: "string \<Rightarrow> string" where
  "trim s = rev (dropWhile isSpace (rev (dropWhile isSpace s)))"

definition createLogLineElement :: "bool \<Rightarrow> logline \<Rightarrow> string option \<Rightarrow> line_element" where
  "createLogLineElement showTs line key =
     (let displayContent =
            (case timestamp line of
               Some ts \<Rightarrow> if \<not> showTs \<and> ts \<noteq> [] then trim (removeFirst ts (content line))
                          else content line
             | None \<Rightarrow> content line)
      in LineElement (level line) (line_id line) key displayContent
           (case key of Some k \<Rightarrow> k \<noteq> [] | None \<Rightarrow> False))"

text \<open>
  The \<open>Map\<close> of \<open>renderGroupedLog\<close>, in insertion order: \<open>mapPush\<close> is
  \<open>if (!grouped.has(k)) grouped.set(k, []); grouped.get(k).push(line)\<close>.
\<close>

fun mapPush :: "(string \<times> logline list) list \<Rightarrow> string \<Rightarrow> logline \<Rightarrow> (string \<times> logline list) list" where
  "mapPush [] k l = [(k, [l])]"
| "mapPush ((k', ls) # g) k l =
     (if k' = k then (k', ls @ [l]) # g else (k', ls) # mapPush g k l)"

definition groupStep :: "(string \<times> logline list) list \<Rightarrow> logline \<Rightarrow> (string \<times> logline list) list" where
  "groupStep g l =
     (case secondKey l of
        Some k \<Rightarrow> if k \<noteq> [] then mapPush g k l else g
      | None \<Rightarrow> g)"

definition groupLines :: "logline list \<Rightarrow> (string \<times> logline list) list" where
  "groupLines ls = foldl groupStep [] ls"

definition mapGet :: "(string \<times> logline list) list \<Rightarrow> string \<Rightarrow> logline list" where
  "mapGet g k = (case map_of g k of Some es \<Rightarrow> es | None \<Rightarrow> [])"

text \<open>One group as it is appended to the fragment: the header, then the events container.\<close>

definition renderGroup :: "bool \<Rightarrow> string \<Rightarrow> logline list \<Rightarrow> node list" where
  "renderGroup showTs k events =
     [GroupHeader k (formatSecondKey k) (length events),
      GroupEvents k (map (\<lambda>line. createLogLineElement showTs line (Some k)) events)]"

text \<open>
  \<open>renderGroupedLog\<close>: group, sort the keys with the default \<open>Array.prototype.sort\<close>
  (ascending by code unit, a proper prefix first), and emit the groups in that order.
\<close>

definition renderGroupedLog :: "bool \<Rightarrow> logline list \<Rightarrow> node list" where
  "renderGroupedLog showTs ls =
     (let grouped = groupLines ls;
          sortedKeys = sort (map fst grouped)
      in concat (map (\<lambda>k. renderGroup showTs k (mapGet grouped k)) sortedKeys))"

definition renderUngroupedLog :: "bool \<Rightarrow> logline list \<Rightarrow> node list" where
  "renderUngroupedLog showTs ls =
     map (\<lambda>line. LineNode (createLogLineElement showTs line (secondKey line))) ls"





definition lineWithKey :: "nat \<Rightarrow> string option \<Rightarrow> logline" where
  "lineWithKey i k = \<lparr>line_id = i, lineNumber = i, timestamp = k, secondKey = k,
     level = ''normal'', content = ''x'', original = ''x''\<rparr>"

section \<open>Viewer state\<close>

text \<open>
  \<open>this.stats\<close> is kept as the \<open>totalLines\<close> of each entry, the only field the code
  reads in the functions below (\<open>this.stats[panel]?.totalLines || 0\<close>).

  The last five fields are not fields of the class; they record the environment the
  class talks to: the fetches that have been issued and not yet settled, the log of all
  fetches ever issued (what a counting fetch stub sees), the notifications shown by
  \<open>showNotification\<close> as (type, message), the visibility of the loading overlay, and how
  far \<open>initializeViewer\<close> has come.
\<close>

datatype init_stage = AwaitingStats | AwaitingPages "panel list" | Initialized

datatype js_value = Undefined | Boolean bool

datatype stats_response = StatsTransportError string | StatsHttp nat "panel \<rightharpoonup> nat"

record viewer =
  logs :: "panel \<Rightarrow> panel_state"
  syncScroll :: bool
  autoScroll :: bool
  showTimestamps :: bool
  currentSearch :: string
  selectedSecond :: "string option"
  groupBySecond :: bool
  isGroupSelectionActive :: bool
  linesPerPage :: nat
  stats :: "panel \<rightharpoonup> nat"
  secondIndex :: "string \<rightharpoonup> (panel \<rightharpoonup> logline list)"
  errorPositions :: "panel \<rightharpoonup> error_position list"
  inFlight :: "request list"
  fetchLog :: "request list"
  notifications :: "(string \<times> string) list"
  loadingOverlay :: bool
  initStage :: init_stage

definition emptyPanel :: panel_state where
  "emptyPanel = \<lparr>element = \<lparr>children = [], highlighted = None\<rparr>, visibleLines = [],
     currentOffset = 0, totalLines = 0, loading = False, searchResults = []\<rparr>"

text \<open>
  The state when the constructor returns: the fields as the constructor sets them, and
  \<open>initializeViewer\<close> suspended at \<open>await this.loadStats()\<close> with the overlay shown and
  the request for \<open>/api/stats\<close> under way.
\<close>

definition constructed :: viewer where
  "constructed = \<lparr>logs = (\<lambda>_. emptyPanel), syncScroll = False, autoScroll = True,
     showTimestamps = True, currentSearch = [], selectedSecond = None, groupBySecond = True,
     isGroupSelectionActive = False, linesPerPage = 100, stats = Map.empty,
     secondIndex = Map.empty, errorPositions = Map.empty,
     inFlight = [StatsRequest], fetchLog = [StatsRequest], notifications = [],
     loadingOverlay = True, initStage = AwaitingStats\<rparr>"

definition updatePanel :: "viewer \<Rightarrow> panel \<Rightarrow> (panel_state \<Rightarrow> panel_state) \<Rightarrow> viewer" where
  "updatePanel s p f = s\<lparr>logs := (logs s)(p := f (logs s p))\<rparr>"

definition issueFetch :: "request \<Rightarrow> viewer \<Rightarrow> viewer" where
  "issueFetch r s = s\<lparr>inFlight := inFlight s @ [r], fetchLog := fetchLog s @ [r]\<rparr>"

definition settleFetch :: "request \<Rightarrow> viewer \<Rightarrow> viewer" where
  "settleFetch r s = s\<lparr>inFlight := remove1 r (inFlight s)\<rparr>"

section \<open>Second index and error position tracker\<close>

text \<open>
  The body of the \<open>forEach\<close> of \<open>buildSecondIndex\<close> and \<open>updateSecondIndex\<close>: a line
  with a truthy key is pushed on \<open>secondIndex[key][panel]\<close>, both levels created on
  demand.
\<close>

definition indexPush ::
  "(string \<rightharpoonup> (panel \<rightharpoonup> logline list)) \<Rightarrow> panel \<Rightarrow> logline \<Rightarrow> (string \<rightharpoonup> (panel \<rightharpoonup> logline list))" where
  "indexPush idx p l =
     (case secondKey l of
        Some k \<Rightarrow>
          if k \<noteq> [] then
            (let byPanel = (case idx k of Some m \<Rightarrow> m | None \<Rightarrow> Map.empty);
                 old = (case byPanel p of Some xs \<Rightarrow> xs | None \<Rightarrow> [])
             in idx(k \<mapsto> byPanel(p \<mapsto> old @ [l])))
          else idx
      | None \<Rightarrow> idx)"

definition indexLines ::
  "(string \<rightharpoonup> (panel \<rightharpoonup> logline list)) \<Rightarrow> panel \<Rightarrow> logline list \<Rightarrow> (string \<rightharpoonup> (panel \<rightharpoonup> logline list))" where
  "indexLines idx p ls = foldl (\<lambda>i l. indexPush i p l) idx ls"

definition buildSecondIndex :: "viewer \<Rightarrow> viewer" where
  "buildSecondIndex s =
     s\<lparr>secondIndex := foldl (\<lambda>i p. indexLines i p (visibleLines (logs s p))) Map.empty panels\<rparr>"

text \<open>The lines the index holds for a key and a panel (none when an entry is missing).\<close>

definition indexed :: "viewer \<Rightarrow> string \<Rightarrow> panel \<Rightarrow> logline list" where
  "indexed s k p =
     (case secondIndex s k of
        Some m \<Rightarrow> (case m p of Some ls \<Rightarrow> ls | None \<Rightarrow> [])
      | None \<Rightarrow> [])"

text \<open>
  The entries a \<open>forEach((line, index) => ...)\<close> over \<open>ls\<close> pushes: one for each error
  or warning line, with \<open>offset: currentOffset + index\<close>, the index counted within \<open>ls\<close>.
\<close>

definition errorEntries :: "nat \<Rightarrow> logline list \<Rightarrow> error_position list" where
  "errorEntries cur ls =
     map (\<lambda>(i, l). ErrorPosition (lineNumber l) (level l) (cur + i))
       (filter (\<lambda>(i, l). isErrorOrWarning l) (enumerate 0 ls))"

definition errorsOf :: "viewer \<Rightarrow> panel \<Rightarrow> error_position list" where
  "errorsOf s p = (case errorPositions s p of Some es \<Rightarrow> es | None \<Rightarrow> [])"

text \<open>
  \<open>updateErrorPositionsFromNewContent\<close> and \<open>detectErrorsFromLoadedContent\<close>. Both end by
  redrawing the scrollbar indicators and the count badge, which are views of
  \<open>errorPositions\<close> and hold no state of their own.
\<close>

definition updateErrorPositionsFromNewContent :: "viewer \<Rightarrow> panel \<Rightarrow> logline list \<Rightarrow> viewer" where
  "updateErrorPositionsFromNewContent s p newLines =
     s\<lparr>errorPositions := (errorPositions s)
          (p \<mapsto> errorsOf s p @ errorEntries (currentOffset (logs s p)) newLines)\<rparr>"

definition detectErrorsFromLoadedContent :: "viewer \<Rightarrow> panel \<Rightarrow> viewer" where
  "detectErrorsFromLoadedContent s p =
     (if visibleLines (logs s p) = [] then s
      else s\<lparr>errorPositions := (errorPositions s)
               (p \<mapsto> errorEntries (currentOffset (logs s p)) (visibleLines (logs s p)))\<rparr>)"

definition updateSecondIndex :: "viewer \<Rightarrow> panel \<Rightarrow> logline list \<Rightarrow> viewer" where
  "updateSecondIndex s p newLines =
     updateErrorPositionsFromNewContent
       (s\<lparr>secondIndex := indexLines (secondIndex s) p newLines\<rparr>) p newLines"

section \<open>Panel content\<close>

text \<open>
  \<open>renderLog\<close> empties the element and rebuilds it in the current mode. (It then scrolls
  a short buffer to the bottom when \<open>autoScroll\<close> is set; that assignment changes scroll
  geometry only.)
\<close>

definition renderLog :: "viewer \<Rightarrow> panel \<Rightarrow> viewer" where
  "renderLog s p =
     updatePanel s p (\<lambda>log. log\<lparr>element :=
       \<lparr>children = (if groupBySecond s then renderGroupedLog (showTimestamps s) (visibleLines log)
                     else renderUngroupedLog (showTimestamps s) (visibleLines log)),
        highlighted = None\<rparr>\<rparr>)"

definition appendChild :: "viewer \<Rightarrow> panel \<Rightarrow> node \<Rightarrow> viewer" where
  "appendChild s p n =
     updatePanel s p (\<lambda>log. log\<lparr>element := (element log)\<lparr>children := children (element log) @ [n]\<rparr>\<rparr>)"

definition showPanelLoading :: "viewer \<Rightarrow> panel \<Rightarrow> string \<Rightarrow> viewer" where
  "showPanelLoading s p message = appendChild s p (PanelLoading message)"

definition showPanelError :: "viewer \<Rightarrow> panel \<Rightarrow> string \<Rightarrow> viewer" where
  "showPanelError s p message = appendChild s p (PanelError message)"

text \<open>\<open>document.getElementById\<close> finds the first node with the id, which is removed.\<close>

fun removeFirstLoading :: "node list \<Rightarrow> node list" where
  "removeFirstLoading [] = []"
| "removeFirstLoading (PanelLoading m # ns) = ns"
| "removeFirstLoading (n # ns) = n # removeFirstLoading ns"

fun removeFirstError :: "node list \<Rightarrow> node list" where
  "removeFirstError [] = []"
| "removeFirstError (PanelError m # ns) = ns"
| "removeFirstError (n # ns) = n # removeFirstError ns"

definition hidePanelLoading :: "viewer \<Rightarrow> panel \<Rightarrow> viewer" where
  "hidePanelLoading s p =
     updatePanel s p (\<lambda>log. log\<lparr>element :=
       (element log)\<lparr>children := removeFirstLoading (children (element log))\<rparr>\<rparr>)"

definition panelErrorTimeout :: "viewer \<Rightarrow> panel \<Rightarrow> viewer" where
  "panelErrorTimeout s p =
     updatePanel s p (\<lambda>log. log\<lparr>element :=
       (element log)\<lparr>children := removeFirstError (children (element log))\<rparr>\<rparr>)"

definition highlightSecondInPanel :: "viewer \<Rightarrow> panel \<Rightarrow> string \<Rightarrow> viewer" where
  "highlightSecondInPanel s p key =
     updatePanel s p (\<lambda>log. log\<lparr>element := (element log)\<lparr>highlighted := Some key\<rparr>\<rparr>)"

text \<open>
  \<open>showNotification(message, type)\<close> adds a notification (it removes itself after three
  seconds; the field keeps the history). \<open>showError\<close> is the type \<open>'error'\<close>.
\<close>

definition showNotification :: "viewer \<Rightarrow> string \<Rightarrow> string \<Rightarrow> viewer" where
  "showNotification s message type = s\<lparr>notifications := notifications s @ [(type, message)]\<rparr>"


text \<open>\<open>redrawAllLogs\<close> renders every panel that has lines.\<close>

definition redrawAllLogs :: "viewer \<Rightarrow> viewer" where
  "redrawAllLogs s =
     foldl (\<lambda>t p. if visibleLines (logs t p) \<noteq> [] then renderLog t p else t) s panels"

text \<open>The handlers of the group toggle, the sync button and the two check boxes.\<close>

definition toggleGroupBySecond :: "viewer \<Rightarrow> viewer" where
  "toggleGroupBySecond s = redrawAllLogs (s\<lparr>groupBySecond := \<not> groupBySecond s\<rparr>)"

definition toggleSyncScroll :: "viewer \<Rightarrow> viewer" where
  "toggleSyncScroll s =
     (let s1 = s\<lparr>syncScroll := \<not> syncScroll s\<rparr>
      in if syncScroll s1
         then showNotification s1 ''Sync scroll enabled - all panels will scroll together'' ''info''
         else showNotification s1 ''Sync scroll disabled - panels scroll independently'' ''info'')"

definition setAutoScroll :: "viewer \<Rightarrow> bool \<Rightarrow> viewer" where
  "setAutoScroll s checked = s\<lparr>autoScroll := checked\<rparr>"

definition setShowTimestamps :: "viewer \<Rightarrow> bool \<Rightarrow> viewer" where
  "setShowTimestamps s checked = redrawAllLogs (s\<lparr>showTimestamps := checked\<rparr>)"

section \<open>Lazy loader\<close>

text \<open>
  An \<open>async\<close> function runs to its first \<open>await\<close> when it is called and continues when
  the awaited fetch settles; other handlers may run in between. Each function is therefore
  two definitions: the call, and the continuation (\<open>_settled\<close>) taking what the fetch
  settled to. \<open>await fetch\<close> and \<open>await response.json()\<close> are taken as one suspension:
  nothing of the function runs between them.

  \<open>loadLogData\<close>, the call: the guard on \<open>loading\<close>, then the flag and the request.
\<close>

definition loadLogData :: "viewer \<Rightarrow> panel \<Rightarrow> nat \<Rightarrow> string \<Rightarrow> viewer" where
  "loadLogData s p offset search =
     (if loading (logs s p) then s
      else issueFetch
             (PageRequest p offset (linesPerPage s) (if search \<noteq> [] then Some search else None))
             (updatePanel s p (\<lambda>log. log\<lparr>loading := True\<rparr>)))"

text \<open>
  The continuation: on success the body of the \<open>try\<close>, on failure the \<open>catch\<close> clause
  (the inline message replaces the content of the element), and in both cases the
  \<open>finally\<close> clause.
\<close>

definition loadLogData_settled :: "viewer \<Rightarrow> panel \<Rightarrow> nat \<Rightarrow> response \<Rightarrow> viewer" where
  "loadLogData_settled s p offset r =
     (let s' =
        (case fetchOutcome r of
           Inr ls \<Rightarrow>
             (let s1 = updatePanel s p (\<lambda>log.
                         if offset = 0 then log\<lparr>visibleLines := ls, currentOffset := 0\<rparr>
                         else log\<lparr>visibleLines := visibleLines log @ ls\<rparr>);
                  s2 = updatePanel s1 p (\<lambda>log.
                         log\<lparr>totalLines := (case stats s1 p of Some n \<Rightarrow> n | None \<Rightarrow> 0)\<rparr>);
                  s3 = renderLog s2 p
              in updateSecondIndex s3 p ls)
         | Inl e \<Rightarrow>
             updatePanel s p (\<lambda>log.
               log\<lparr>element := \<lparr>children = [LoadFailed e], highlighted = None\<rparr>\<rparr>))
      in updatePanel s' p (\<lambda>log. log\<lparr>loading := False\<rparr>))"

text \<open>
  \<open>loadSecondFromPanel\<close>, the call: it returns at once (\<open>return;\<close>, the value
  \<open>undefined\<close>) when a loaded line has the key, and otherwise shows the loading node and
  issues the targeted request with \<open>limit: 50\<close>; \<open>None\<close> says that the result is pending.
\<close>

definition loadSecondFromPanel :: "viewer \<Rightarrow> panel \<Rightarrow> string \<Rightarrow> viewer \<times> js_value option" where
  "loadSecondFromPanel s p key =
     (if list_ex (\<lambda>line. secondKey line = Some key) (visibleLines (logs s p))
      then (s, Some Undefined)
      else (issueFetch (SecondRequest p key 50)
              (showPanelLoading s p (''Loading '' @ formatSecondKey key @ ''...'')), None))"

definition loadSecondFromPanel_settled :: "viewer \<Rightarrow> panel \<Rightarrow> string \<Rightarrow> response \<Rightarrow> viewer \<times> js_value" where
  "loadSecondFromPanel_settled s p key r =
     (case fetchOutcome r of
        Inr ls \<Rightarrow>
          if ls \<noteq> [] then
            (let s1 = updatePanel s p (\<lambda>log. log\<lparr>visibleLines := visibleLines log @ ls\<rparr>);
                 s2 = updateSecondIndex s1 p ls;
                 s3 = renderLog s2 p;
                 s4 = highlightSecondInPanel s3 p key
             in (hidePanelLoading s4 p, Boolean True))
          else (hidePanelLoading s p, Boolean False)
      | Inl e \<Rightarrow>
          (hidePanelLoading (showPanelError s p (''Failed to load '' @ formatSecondKey key)) p,
           Boolean False))"

subsection \<open>Selecting a second\<close>

text \<open>
  \<open>clearSelection\<close>, and \<open>selectSecond\<close> up to the point where \<open>loadAndHighlightSecond\<close>
  waits for the three calls of \<open>loadSecondFromPanel\<close>, which are made in the order of the
  panels. The two timers that follow once the calls have returned change the flags as
  given below (and scroll the panels, which is geometry).
\<close>

definition clearSelection :: "viewer \<Rightarrow> viewer" where
  "clearSelection s =
     foldl (\<lambda>t p. updatePanel t p (\<lambda>log. log\<lparr>element := (element log)\<lparr>highlighted := None\<rparr>\<rparr>))
       (s\<lparr>selectedSecond := None, isGroupSelectionActive := False\<rparr>) panels"

definition selectSecond :: "viewer \<Rightarrow> string \<Rightarrow> viewer" where
  "selectSecond s key =
     (let s1 = (clearSelection s)\<lparr>selectedSecond := Some key, isGroupSelectionActive := True\<rparr>;
          s2 = foldl (\<lambda>t p. highlightSecondInPanel t p key) s1 panels
      in foldl (\<lambda>t p. fst (loadSecondFromPanel t p key)) s2 panels)"

definition selectionScrollTimer :: "viewer \<Rightarrow> viewer" where
  "selectionScrollTimer s = s\<lparr>syncScroll := False\<rparr>"

definition selectionReleaseTimer :: "viewer \<Rightarrow> bool \<Rightarrow> viewer" where
  "selectionReleaseTimer s wasSyncScrollEnabled =
     s\<lparr>syncScroll := wasSyncScrollEnabled, isGroupSelectionActive := False\<rparr>"

section \<open>Initialisation\<close>

text \<open>
  \<open>loadStats\<close> catches every error of its body and only logs it, and \<open>loadLogData\<close>
  catches every error of its body, so the promises \<open>initializeViewer\<close> awaits always
  fulfil. The continuation of \<open>loadStats\<close>:
\<close>

definition loadStats_settled :: "viewer \<Rightarrow> stats_response \<Rightarrow> viewer" where
  "loadStats_settled s r =
     (case r of
        StatsTransportError m \<Rightarrow> s
      | StatsHttp status body \<Rightarrow>
          if 200 \<le> status \<and> status \<le> 299 then s\<lparr>stats := body\<rparr> else s)"

text \<open>
  The rest of the \<open>try\<close> block of \<open>initializeViewer\<close> after \<open>Promise.all\<close>: the index
  is rebuilt, errors are detected from the loaded content of each panel, the overlay is
  hidden (the upload dialogue is wired and the status line is written, which touch none
  of the state modelled here). The \<open>catch\<close> clause is \<open>initializeViewer_catch\<close>.
\<close>

definition initializeViewer_afterPages :: "viewer \<Rightarrow> viewer" where
  "initializeViewer_afterPages s =
     (let s1 = buildSecondIndex s;
          s2 = foldl detectErrorsFromLoadedContent s1 panels
      in s2\<lparr>loadingOverlay := False, initStage := Initialized\<rparr>)"


text \<open>
  \<open>await Promise.all([...])\<close> continues as soon as the last of the three promises has
  fulfilled, before any other event is handled.
\<close>

definition initializeViewer_await :: "viewer \<Rightarrow> viewer" where
  "initializeViewer_await s =
     (case initStage s of
        AwaitingPages ps \<Rightarrow> if ps = [] then initializeViewer_afterPages s else s
      | _ \<Rightarrow> s)"

text \<open>
  When the stats request settles: \<open>loadStats\<close> finishes, then the three calls
  \<open>loadLogData(panel, 0)\<close> are made in order. A call on a panel that is already loading
  returns at once, so \<open>Promise.all\<close> waits for the other panels only.
\<close>

definition initializeViewer_afterStats :: "viewer \<Rightarrow> stats_response \<Rightarrow> viewer" where
  "initializeViewer_afterStats s r =
     (let s1 = loadStats_settled (settleFetch StatsRequest s) r;
          waiting = filter (\<lambda>p. \<not> loading (logs s1 p)) panels;
          s2 = foldl (\<lambda>t p. loadLogData t p 0 []) s1 panels
      in initializeViewer_await (s2\<lparr>initStage := AwaitingPages waiting\<rparr>))"

subsection \<open>Scroll-driven pagination\<close>

text \<open>
  \<open>handleScroll\<close>, the pagination half: near the bottom (within 100 px), with more lines
  to come and no load under way, the next page is requested. The geometry of the scrolled
  element is read from the layout engine. (The other half arms the 16 ms timer that calls
  \<open>syncScrollPosition\<close>.)
\<close>

record geometry =
  scrollTop :: real
  scrollHeight :: real
  clientHeight :: real

definition handleScroll :: "viewer \<Rightarrow> panel \<Rightarrow> geometry \<Rightarrow> viewer" where
  "handleScroll s p g =
     (if scrollTop g + clientHeight g > scrollHeight g - 100 then
        (let newOffset = currentOffset (logs s p) + length (visibleLines (logs s p))
         in if newOffset < totalLines (logs s p) \<and> \<not> loading (logs s p)
            then loadLogData s p newOffset [] else s)
      else s)"

section \<open>Scroll synchronisation\<close>




section \<open>The event loop\<close>

text \<open>
  What the event loop can run next. The \<open>Settled\<close> events deliver the result of a fetch
  that is under way. \<open>CallLoadLogData\<close> stands for the callers of \<open>loadLogData\<close> in
  the search handlers: \<open>performPanelSearch\<close> (offset 0 with the search term) and
  \<open>clearPanelSearch\<close> (offset 0); any offset and term are admitted. \<open>Scroll\<close> is a
  scroll event on a panel: the listener that clears a stale selection, then
  \<open>handleScroll\<close>. \<open>SelectSecond\<close> is a click on a group header or a line,
  \<open>ClearSelection\<close> the Escape key; the two selection timers may fire at any time, the
  second with any saved value of \<open>syncScroll\<close>. The other events are the controls of
  the tool bar. (Global search, export and file upload touch none of the state modelled
  here and are left out.)
\<close>

datatype event =
    StatsSettled stats_response
  | CallLoadLogData panel nat string
  | PageSettled panel nat "string option" response
  | SelectSecond string
  | SecondSettled panel string response
  | PanelErrorTimeout panel
  | Scroll panel geometry
  | ClearSelection
  | SelectionScrollTimer
  | SelectionReleaseTimer bool
  | ToggleGroupBySecond
  | ToggleSyncScroll
  | SetAutoScroll bool
  | SetShowTimestamps bool

definition scrollEvent :: "viewer \<Rightarrow> panel \<Rightarrow> geometry \<Rightarrow> viewer" where
  "scrollEvent s p g =
     handleScroll
       (if (case selectedSecond s of Some k \<Rightarrow> k \<noteq> [] | None \<Rightarrow> False)
           \<and> \<not> isGroupSelectionActive s
        then clearSelection s else s) p g"

text \<open>
  A page request settles: the continuation of \<open>loadLogData\<close> runs; if it was one of the
  calls \<open>initializeViewer\<close> waits for, initialisation moves on. (A panel has at most one
  page request under way, so while initialisation waits for a panel the request that
  settles on it is the one initialisation made.)
\<close>

definition pageSettled :: "viewer \<Rightarrow> panel \<Rightarrow> nat \<Rightarrow> string option \<Rightarrow> response \<Rightarrow> viewer" where
  "pageSettled s p offset search r =
     (let s1 = loadLogData_settled
                 (settleFetch (PageRequest p offset (linesPerPage s) search) s) p offset r;
          s2 = (case initStage s1 of
                  AwaitingPages ps \<Rightarrow> s1\<lparr>initStage := AwaitingPages (removeAll p ps)\<rparr>
                | _ \<Rightarrow> s1)
      in if initStage s1 = initStage s2 then s1 else initializeViewer_await s2)"

definition secondSettled :: "viewer \<Rightarrow> panel \<Rightarrow> string \<Rightarrow> response \<Rightarrow> viewer \<times> js_value" where
  "secondSettled s p key r =
     loadSecondFromPanel_settled (settleFetch (SecondRequest p key 50) s) p key r"

fun step :: "viewer \<Rightarrow> event \<Rightarrow> viewer option" where
  "step s (StatsSettled r) =
     (if StatsRequest \<in> set (inFlight s) then Some (initializeViewer_afterStats s r) else None)"
| "step s (CallLoadLogData p offset search) = Some (loadLogData s p offset search)"
| "step s (PageSettled p offset search r) =
     (if PageRequest p offset (linesPerPage s) search \<in> set (inFlight s)
      then Some (pageSettled s p offset search r) else None)"
| "step s (SelectSecond key) = Some (selectSecond s key)"
| "step s (SecondSettled p key r) =
     (if SecondRequest p key 50 \<in> set (inFlight s)
      then Some (fst (secondSettled s p key r)) else None)"
| "step s (PanelErrorTimeout p) = Some (panelErrorTimeout s p)"
| "step s (Scroll p g) = Some (scrollEvent s p g)"
| "step s ClearSelection = Some (clearSelection s)"
| "step s SelectionScrollTimer = Some (selectionScrollTimer s)"
| "step s (SelectionReleaseTimer was) = Some (selectionReleaseTimer s was)"
| "step s ToggleGroupBySecond = Some (toggleGroupBySecond s)"
| "step s ToggleSyncScroll = Some (toggleSyncScroll s)"
| "step s (SetAutoScroll checked) = Some (setAutoScroll s checked)"
| "step s (SetShowTimestamps checked) = Some (setShowTimestamps s checked)"

fun run :: "viewer \<Rightarrow> event list \<Rightarrow> viewer option" where
  "run s [] = Some s"
| "run s (e # es) = (case step s e of None \<Rightarrow> None | Some s' \<Rightarrow> run s' es)"

definition reachable :: "viewer \<Rightarrow> bool" where
  "reachable s = (\<exists>es. run constructed es = Some s)"


text \<open>
  A page load that is called and whose fetch then settles before anything else happens
  (a call on a loading panel is ignored and has no fetch to settle), and a sequence of
  such loads on one panel, each given as the offset and what its fetch settled to.
\<close>

definition loadPage :: "viewer \<Rightarrow> panel \<Rightarrow> nat \<times> response \<Rightarrow> viewer" where
  "loadPage s p c =
     (if loading (logs s p) then s
      else pageSettled (loadLogData s p (fst c) []) p (fst c) None (snd c))"

definition loadPages :: "viewer \<Rightarrow> panel \<Rightarrow> (nat \<times> response) list \<Rightarrow> viewer" where
  "loadPages s p cs = foldl (\<lambda>t c. loadPage t p c) s cs"

definition succeeded :: "response \<Rightarrow> bool" where
  "succeeded r = (case fetchOutcome r of Inr ls \<Rightarrow> True | Inl e \<Rightarrow> False)"

definition pageOf :: "response \<Rightarrow> logline list" where
  "pageOf r = (case fetchOutcome r of Inr ls \<Rightarrow> ls | Inl e \<Rightarrow> [])"

text \<open>The page requests of a panel among the fetches under way.\<close>

fun pageRequestOf :: "panel \<Rightarrow> request \<Rightarrow> bool" where
  "pageRequestOf p (PageRequest q offset limit search) = (q = p)"
| "pageRequestOf p (SecondRequest q key limit) = False"
| "pageRequestOf p StatsRequest = False"

definition pagesInFlight :: "viewer \<Rightarrow> panel \<Rightarrow> nat" where
  "pagesInFlight s p = length (filter (pageRequestOf p) (inFlight s))"

text \<open>
  The guard of \<open>loadLogData\<close> as an invariant: a panel has one page request under way
  when its \<open>loading\<close> flag is set and none otherwise.
\<close>

definition guarded :: "viewer \<Rightarrow> bool" where
  "guarded s = (\<forall>p. pagesInFlight s p = (if loading (logs s p) then 1 else 0))"

text \<open>
  What the handlers that only redraw or set flags leave alone: buffers, offsets, loading
  flags and page requests; the notifications they add are of type \<open>'info'\<close>.
\<close>

definition quiet :: "viewer \<Rightarrow> viewer \<Rightarrow> bool" where
  "quiet s s' =
     ((\<forall>p. visibleLines (logs s' p) = visibleLines (logs s p)
           \<and> currentOffset (logs s' p) = currentOffset (logs s p)
           \<and> loading (logs s' p) = loading (logs s p)
           \<and> pagesInFlight s' p = pagesInFlight s p)
      \<and> (\<forall>n \<in> set (notifications s'). n \<in> set (notifications s) \<or> fst n = ''info''))"


section \<open>Concrete inputs\<close>


text \<open>A successful answer to the stats request, and the state it leads to.\<close>

definition okStats :: stats_response where
  "okStats = StatsHttp 200 [bt \<mapsto> 3, out \<mapsto> 0, rs \<mapsto> 0]"

definition afterStatsOk :: viewer where
  "afterStatsOk = initializeViewer_afterStats constructed okStats"

text \<open>A burst of calls of \<open>loadLogData\<close> on one panel with no fetch settling in between.\<close>

definition callBurst :: "viewer \<Rightarrow> panel \<Rightarrow> (nat \<times> string) list \<Rightarrow> viewer" where
  "callBurst s p cs = foldl (\<lambda>t c. loadLogData t p (fst c) (snd c)) s cs"

text \<open>Sequences of page loads: one starting at offset 5, one starting at offset 0.\<close>

definition page5 :: "(nat \<times> response) list" where
  "page5 = [(5, HttpResponse 200 [lineWithKey 6 (Some ''t1'')])]"

definition pages012 :: "(nat \<times> response) list" where
  "pages012 = [(0, HttpResponse 200 [lineWithKey 1 (Some ''t1''), lineWithKey 2 None]),
               (2, HttpResponse 200 [lineWithKey 3 (Some ''t2'')])]"

text \<open>The first page of bt fails with status 500; or it arrives with two lines.\<close>

definition failedBt :: viewer where
  "failedBt = pageSettled afterStatsOk bt 0 None (HttpResponse 500 [])"

definition errorLine :: "nat \<Rightarrow> string option \<Rightarrow> logline" where
  "errorLine i k = \<lparr>line_id = i, lineNumber = i, timestamp = k, secondKey = k,
     level = ''error'', content = ''x'', original = ''x''\<rparr>"

definition firstPage :: "logline list" where
  "firstPage = [lineWithKey 1 (Some ''t1''), errorLine 2 (Some ''t1'')]"

definition loadedBt :: viewer where
  "loadedBt = pageSettled afterStatsOk bt 0 None (HttpResponse 200 firstPage)"

text \<open>
  Initialisation completed with two lines in bt (the second an error) and nothing in the
  other panels; then either a reload of bt at offset 0 (what \<open>clearPanelSearch\<close> does),
  or a scroll of bt to the bottom that requests the page at offset 2, answered with one
  more error line. \<open>initRun\<close> is initialisation as a whole, the page requests settling in
  the order bt, out, rs; in \<open>failedInit\<close> all four fetches fail.
\<close>

definition initDone :: viewer where
  "initDone = pageSettled (pageSettled loadedBt out 0 None (HttpResponse 200 [])) rs 0 None
                (HttpResponse 200 [])"

definition reloadedBt :: viewer where
  "reloadedBt = pageSettled (loadLogData initDone bt 0 []) bt 0 None (HttpResponse 200 firstPage)"

definition nearBottom :: geometry where
  "nearBottom = \<lparr>scrollTop = 350, scrollHeight = 500, clientHeight = 100\<rparr>"

definition appendedBt :: viewer where
  "appendedBt = pageSettled (scrollEvent initDone bt nearBottom) bt 2 None
                  (HttpResponse 200 [errorLine 3 (Some ''t2'')])"

definition initRun :: "stats_response \<Rightarrow> response \<Rightarrow> response \<Rightarrow> response \<Rightarrow> viewer" where
  "initRun r0 rb ro rr =
     pageSettled (pageSettled (pageSettled (initializeViewer_afterStats constructed r0)
       bt 0 None rb) out 0 None ro) rs 0 None rr"






section \<open>Properties of grouped rendering\<close>




















section \<open>Effect of each operation on the fields of the state\<close>

lemma updatePanel_fields [simp]:
  "logs (updatePanel s p f) = (logs s)(p := f (logs s p))"
  "inFlight (updatePanel s p f) = inFlight s"
  "fetchLog (updatePanel s p f) = fetchLog s"
  "secondIndex (updatePanel s p f) = secondIndex s"
  "errorPositions (updatePanel s p f) = errorPositions s"
  "stats (updatePanel s p f) = stats s"
  "initStage (updatePanel s p f) = initStage s"
  "notifications (updatePanel s p f) = notifications s"
  "loadingOverlay (updatePanel s p f) = loadingOverlay s"
  "linesPerPage (updatePanel s p f) = linesPerPage s"
  "groupBySecond (updatePanel s p f) = groupBySecond s"
  "showTimestamps (updatePanel s p f) = showTimestamps s"
  by (simp_all add: updatePanel_def)

lemma issueFetch_fields [simp]:
  "logs (issueFetch r s) = logs s"
  "inFlight (issueFetch r s) = inFlight s @ [r]"
  "fetchLog (issueFetch r s) = fetchLog s @ [r]"
  "secondIndex (issueFetch r s) = secondIndex s"
  "errorPositions (issueFetch r s) = errorPositions s"
  "stats (issueFetch r s) = stats s"
  "initStage (issueFetch r s) = initStage s"
  "notifications (issueFetch r s) = notifications s"
  "loadingOverlay (issueFetch r s) = loadingOverlay s"
  "linesPerPage (issueFetch r s) = linesPerPage s"
  by (simp_all add: issueFetch_def)

lemma settleFetch_fields [simp]:
  "logs (settleFetch r s) = logs s"
  "inFlight (settleFetch r s) = remove1 r (inFlight s)"
  "fetchLog (settleFetch r s) = fetchLog s"
  "secondIndex (settleFetch r s) = secondIndex s"
  "errorPositions (settleFetch r s) = errorPositions s"
  "stats (settleFetch r s) = stats s"
  "initStage (settleFetch r s) = initStage s"
  "notifications (settleFetch r s) = notifications s"
  "loadingOverlay (settleFetch r s) = loadingOverlay s"
  "linesPerPage (settleFetch r s) = linesPerPage s"
  by (simp_all add: settleFetch_def)

lemma updateSecondIndex_fields [simp]:
  "logs (updateSecondIndex s p ls) = logs s"
  "inFlight (updateSecondIndex s p ls) = inFlight s"
  "fetchLog (updateSecondIndex s p ls) = fetchLog s"
  "stats (updateSecondIndex s p ls) = stats s"
  "initStage (updateSecondIndex s p ls) = initStage s"
  "notifications (updateSecondIndex s p ls) = notifications s"
  "loadingOverlay (updateSecondIndex s p ls) = loadingOverlay s"
  "linesPerPage (updateSecondIndex s p ls) = linesPerPage s"
  "secondIndex (updateSecondIndex s p ls) = indexLines (secondIndex s) p ls"
  "errorPositions (updateSecondIndex s p ls) =
     (errorPositions s)(p \<mapsto> errorsOf s p @ errorEntries (currentOffset (logs s p)) ls)"
  by (simp_all add: updateSecondIndex_def updateErrorPositionsFromNewContent_def errorsOf_def)

lemma renderLog_fields [simp]:
  "inFlight (renderLog s p) = inFlight s"
  "fetchLog (renderLog s p) = fetchLog s"
  "secondIndex (renderLog s p) = secondIndex s"
  "errorPositions (renderLog s p) = errorPositions s"
  "stats (renderLog s p) = stats s"
  "initStage (renderLog s p) = initStage s"
  "notifications (renderLog s p) = notifications s"
  "loadingOverlay (renderLog s p) = loadingOverlay s"
  "linesPerPage (renderLog s p) = linesPerPage s"
  by (simp_all add: renderLog_def)

lemma renderLog_panel [simp]:
  "visibleLines (logs (renderLog s p) q) = visibleLines (logs s q)"
  "currentOffset (logs (renderLog s p) q) = currentOffset (logs s q)"
  "totalLines (logs (renderLog s p) q) = totalLines (logs s q)"
  "loading (logs (renderLog s p) q) = loading (logs s q)"
  "searchResults (logs (renderLog s p) q) = searchResults (logs s q)"
  by (simp_all add: renderLog_def)


lemma detect_fields [simp]:
  "logs (detectErrorsFromLoadedContent s p) = logs s"
  "inFlight (detectErrorsFromLoadedContent s p) = inFlight s"
  "fetchLog (detectErrorsFromLoadedContent s p) = fetchLog s"
  "secondIndex (detectErrorsFromLoadedContent s p) = secondIndex s"
  "stats (detectErrorsFromLoadedContent s p) = stats s"
  "initStage (detectErrorsFromLoadedContent s p) = initStage s"
  "notifications (detectErrorsFromLoadedContent s p) = notifications s"
  "loadingOverlay (detectErrorsFromLoadedContent s p) = loadingOverlay s"
  "linesPerPage (detectErrorsFromLoadedContent s p) = linesPerPage s"
  by (simp_all add: detectErrorsFromLoadedContent_def)

lemma buildSecondIndex_fields [simp]:
  "logs (buildSecondIndex s) = logs s"
  "inFlight (buildSecondIndex s) = inFlight s"
  "fetchLog (buildSecondIndex s) = fetchLog s"
  "errorPositions (buildSecondIndex s) = errorPositions s"
  "stats (buildSecondIndex s) = stats s"
  "initStage (buildSecondIndex s) = initStage s"
  "notifications (buildSecondIndex s) = notifications s"
  "loadingOverlay (buildSecondIndex s) = loadingOverlay s"
  "linesPerPage (buildSecondIndex s) = linesPerPage s"
  by (simp_all add: buildSecondIndex_def)

lemma afterPages_fields [simp]:
  "logs (initializeViewer_afterPages s) = logs s"
  "inFlight (initializeViewer_afterPages s) = inFlight s"
  "fetchLog (initializeViewer_afterPages s) = fetchLog s"
  "stats (initializeViewer_afterPages s) = stats s"
  "initStage (initializeViewer_afterPages s) = Initialized"
  "notifications (initializeViewer_afterPages s) = notifications s"
  "loadingOverlay (initializeViewer_afterPages s) = False"
  "linesPerPage (initializeViewer_afterPages s) = linesPerPage s"
  by (simp_all add: initializeViewer_afterPages_def panels_def Let_def)

lemma await_fields [simp]:
  "logs (initializeViewer_await s) = logs s"
  "inFlight (initializeViewer_await s) = inFlight s"
  "fetchLog (initializeViewer_await s) = fetchLog s"
  "stats (initializeViewer_await s) = stats s"
  "notifications (initializeViewer_await s) = notifications s"
  "linesPerPage (initializeViewer_await s) = linesPerPage s"
  by (simp_all add: initializeViewer_await_def split: init_stage.splits)

lemma loadLogData_fields [simp]:
  "logs (loadLogData s p offset search) = (logs s)(p := (logs s p)\<lparr>loading := True\<rparr>)"
  "secondIndex (loadLogData s p offset search) = secondIndex s"
  "errorPositions (loadLogData s p offset search) = errorPositions s"
  "stats (loadLogData s p offset search) = stats s"
  "initStage (loadLogData s p offset search) = initStage s"
  "notifications (loadLogData s p offset search) = notifications s"
  "loadingOverlay (loadLogData s p offset search) = loadingOverlay s"
  "linesPerPage (loadLogData s p offset search) = linesPerPage s"
  by (auto simp: loadLogData_def)

lemma loadLogData_inFlight:
  "inFlight (loadLogData s p offset search) =
     (if loading (logs s p) then inFlight s
      else inFlight s @ [PageRequest p offset (linesPerPage s) (if search \<noteq> [] then Some search else None)])"
  by (simp add: loadLogData_def)

lemma loadLogData_fetchLog:
  "fetchLog (loadLogData s p offset search) =
     (if loading (logs s p) then fetchLog s
      else fetchLog s @ [PageRequest p offset (linesPerPage s) (if search \<noteq> [] then Some search else None)])"
  by (simp add: loadLogData_def)

lemma settled_fields [simp]:
  "inFlight (loadLogData_settled s p offset r) = inFlight s"
  "fetchLog (loadLogData_settled s p offset r) = fetchLog s"
  "stats (loadLogData_settled s p offset r) = stats s"
  "initStage (loadLogData_settled s p offset r) = initStage s"
  "notifications (loadLogData_settled s p offset r) = notifications s"
  "loadingOverlay (loadLogData_settled s p offset r) = loadingOverlay s"
  "linesPerPage (loadLogData_settled s p offset r) = linesPerPage s"
  by (simp_all add: loadLogData_settled_def Let_def split: sum.splits)

lemma settled_other: "q \<noteq> p \<Longrightarrow> logs (loadLogData_settled s p offset r) q = logs s q"
  by (simp add: loadLogData_settled_def Let_def renderLog_def split: sum.splits)

lemma settled_loading: "loading (logs (loadLogData_settled s p offset r) q) = (q \<noteq> p \<and> loading (logs s q))"
  by (simp add: loadLogData_settled_def Let_def split: sum.splits)

lemma settled_visibleLines:
  "visibleLines (logs (loadLogData_settled s p offset r) p) =
     (case fetchOutcome r of
        Inr ls \<Rightarrow> if offset = 0 then ls else visibleLines (logs s p) @ ls
      | Inl e \<Rightarrow> visibleLines (logs s p))"
  by (simp add: loadLogData_settled_def Let_def split: sum.splits)

lemma settled_currentOffset:
  "currentOffset (logs (loadLogData_settled s p offset r) p) =
     (case fetchOutcome r of
        Inr ls \<Rightarrow> if offset = 0 then 0 else currentOffset (logs s p)
      | Inl e \<Rightarrow> currentOffset (logs s p))"
  by (simp add: loadLogData_settled_def Let_def split: sum.splits)

lemma settled_settleFetch:
  "logs (loadLogData_settled (settleFetch x s) p offset r) = logs (loadLogData_settled s p offset r)"
  by (simp add: loadLogData_settled_def Let_def renderLog_def updatePanel_def settleFetch_def split: sum.splits)

lemma pageSettled_fields [simp]:
  "logs (pageSettled s p offset search r) = logs (loadLogData_settled s p offset r)"
  "inFlight (pageSettled s p offset search r) = remove1 (PageRequest p offset (linesPerPage s) search) (inFlight s)"
  "fetchLog (pageSettled s p offset search r) = fetchLog s"
  "stats (pageSettled s p offset search r) = stats s"
  "notifications (pageSettled s p offset search r) = notifications s"
  "linesPerPage (pageSettled s p offset search r) = linesPerPage s"
  by (simp_all add: pageSettled_def Let_def settled_settleFetch split: init_stage.splits)


lemma loadSecond_call_panel [simp]:
  "visibleLines (logs (fst (loadSecondFromPanel s p key)) q) = visibleLines (logs s q)"
  "currentOffset (logs (fst (loadSecondFromPanel s p key)) q) = currentOffset (logs s q)"
  "totalLines (logs (fst (loadSecondFromPanel s p key)) q) = totalLines (logs s q)"
  "loading (logs (fst (loadSecondFromPanel s p key)) q) = loading (logs s q)"
  by (simp_all add: loadSecondFromPanel_def showPanelLoading_def appendChild_def)

lemma secondSettled_panel [simp]:
  "currentOffset (logs (fst (secondSettled s p key r)) q) = currentOffset (logs s q)"
  "loading (logs (fst (secondSettled s p key r)) q) = loading (logs s q)"
  "inFlight (fst (secondSettled s p key r)) = remove1 (SecondRequest p key 50) (inFlight s)"
  by (simp_all add: secondSettled_def loadSecondFromPanel_settled_def Let_def hidePanelLoading_def
        showPanelError_def appendChild_def highlightSecondInPanel_def split: sum.splits)

lemma panelErrorTimeout_panel [simp]:
  "visibleLines (logs (panelErrorTimeout s p) q) = visibleLines (logs s q)"
  "currentOffset (logs (panelErrorTimeout s p) q) = currentOffset (logs s q)"
  "loading (logs (panelErrorTimeout s p) q) = loading (logs s q)"
  "inFlight (panelErrorTimeout s p) = inFlight s"
  by (simp_all add: panelErrorTimeout_def)

lemma handleScroll_cases:
  "handleScroll s p g = s \<or>
   (\<not> loading (logs s p) \<and>
    handleScroll s p g = loadLogData s p (currentOffset (logs s p) + length (visibleLines (logs s p))) [])"
  by (simp add: handleScroll_def Let_def)

lemma afterStats_logs:
  "logs (initializeViewer_afterStats s r) q = (logs s q)\<lparr>loading := True\<rparr>"
  by (cases q) (simp_all add: initializeViewer_afterStats_def Let_def panels_def loadStats_settled_def
      split: stats_response.splits)

lemma loadStats_settled_fields [simp]:
  "logs (loadStats_settled s r) = logs s"
  "inFlight (loadStats_settled s r) = inFlight s"
  "fetchLog (loadStats_settled s r) = fetchLog s"
  "linesPerPage (loadStats_settled s r) = linesPerPage s"
  "notifications (loadStats_settled s r) = notifications s"
  by (simp_all add: loadStats_settled_def split: stats_response.splits)

lemma afterStats_inFlight:
  "inFlight (initializeViewer_afterStats s r) =
     remove1 StatsRequest (inFlight s)
       @ map (\<lambda>p. PageRequest p 0 (linesPerPage s) None) (filter (\<lambda>p. \<not> loading (logs s p)) panels)"
  by (simp add: initializeViewer_afterStats_def Let_def panels_def loadLogData_inFlight)

section \<open>Invariants of the event loop\<close>

lemma quiet_refl: "quiet s s"
  by (simp add: quiet_def)

lemma quiet_trans: "quiet s t \<Longrightarrow> quiet t u \<Longrightarrow> quiet s u"
  by (auto simp: quiet_def)

lemma quiet_updatePanel:
  assumes "visibleLines (f (logs s p)) = visibleLines (logs s p)"
    and "currentOffset (f (logs s p)) = currentOffset (logs s p)"
    and "loading (f (logs s p)) = loading (logs s p)"
  shows "quiet s (updatePanel s p f)"
  using assms by (simp add: quiet_def pagesInFlight_def)

lemma quiet_renderLog: "quiet s (renderLog s p)"
  by (simp add: renderLog_def quiet_updatePanel)

lemma quiet_highlight: "quiet s (highlightSecondInPanel s p key)"
  by (simp add: highlightSecondInPanel_def quiet_updatePanel)

lemma quiet_appendChild: "quiet s (appendChild s p n)"
  by (simp add: appendChild_def quiet_updatePanel)

lemma quiet_foldl:
  assumes "\<And>t p. quiet t (f t p)"
  shows "quiet s (foldl f s ps)"
proof (induction ps arbitrary: s)
  case Nil
  show ?case by (simp add: quiet_refl)
next
  case (Cons p ps)
  have "quiet s (f s p)" by (rule assms)
  moreover have "quiet (f s p) (foldl f (f s p) ps)" by (rule Cons.IH)
  ultimately show ?case by (simp add: quiet_trans)
qed

lemma quiet_redrawAllLogs: "quiet s (redrawAllLogs s)"
  unfolding redrawAllLogs_def
  by (rule quiet_foldl) (simp add: quiet_renderLog quiet_refl)

lemma quiet_clearSelection: "quiet s (clearSelection s)"
proof -
  have a: "quiet s (s\<lparr>selectedSecond := None, isGroupSelectionActive := False\<rparr>)"
    by (simp add: quiet_def pagesInFlight_def)
  have b: "quiet t (foldl (\<lambda>t p. updatePanel t p (\<lambda>log. log\<lparr>element := (element log)\<lparr>highlighted := None\<rparr>\<rparr>)) t panels)" for t
    by (rule quiet_foldl) (simp add: quiet_updatePanel)
  from quiet_trans [OF a b] show ?thesis by (simp add: clearSelection_def)
qed

lemma quiet_loadSecond_call: "quiet s (fst (loadSecondFromPanel s p key))"
proof (cases "list_ex (\<lambda>line. secondKey line = Some key) (visibleLines (logs s p))")
  case True
  then show ?thesis by (simp add: loadSecondFromPanel_def quiet_refl)
next
  case False
  have a: "quiet s (showPanelLoading s p (''Loading '' @ formatSecondKey key @ ''...''))"
    by (simp add: showPanelLoading_def quiet_appendChild)
  have b: "quiet t (issueFetch (SecondRequest p key 50) t)" for t
    by (simp add: quiet_def pagesInFlight_def)
  from False quiet_trans [OF a b] show ?thesis by (simp add: loadSecondFromPanel_def)
qed

lemma quiet_selectSecond: "quiet s (selectSecond s key)"
proof -
  let ?s0 = "clearSelection s"
  let ?s1 = "?s0\<lparr>selectedSecond := Some key, isGroupSelectionActive := True\<rparr>"
  let ?s2 = "foldl (\<lambda>t p. highlightSecondInPanel t p key) ?s1 panels"
  have a: "quiet ?s0 ?s1" by (simp add: quiet_def pagesInFlight_def)
  have b: "quiet ?s1 ?s2" by (rule quiet_foldl) (rule quiet_highlight)
  have c: "quiet ?s2 (foldl (\<lambda>t p. fst (loadSecondFromPanel t p key)) ?s2 panels)"
    by (rule quiet_foldl) (rule quiet_loadSecond_call)
  from quiet_trans [OF quiet_trans [OF quiet_trans [OF quiet_clearSelection a] b] c]
  show ?thesis by (simp add: selectSecond_def Let_def)
qed

lemma quiet_flags:
  "quiet s (selectionScrollTimer s)"
  "quiet s (selectionReleaseTimer s was)"
  "quiet s (setAutoScroll s checked)"
  by (simp_all add: quiet_def pagesInFlight_def selectionScrollTimer_def selectionReleaseTimer_def
        setAutoScroll_def)

lemma quiet_toggleSyncScroll: "quiet s (toggleSyncScroll s)"
  by (simp add: quiet_def pagesInFlight_def toggleSyncScroll_def showNotification_def Let_def)

lemma quiet_toggleGroupBySecond: "quiet s (toggleGroupBySecond s)"
proof -
  have "quiet s (s\<lparr>groupBySecond := \<not> groupBySecond s\<rparr>)"
    by (simp add: quiet_def pagesInFlight_def)
  from quiet_trans [OF this quiet_redrawAllLogs] show ?thesis
    by (simp add: toggleGroupBySecond_def)
qed

lemma quiet_setShowTimestamps: "quiet s (setShowTimestamps s checked)"
proof -
  have "quiet s (s\<lparr>showTimestamps := checked\<rparr>)"
    by (simp add: quiet_def pagesInFlight_def)
  from quiet_trans [OF this quiet_redrawAllLogs] show ?thesis
    by (simp add: setShowTimestamps_def)
qed

lemma quiet_panelErrorTimeout: "quiet s (panelErrorTimeout s p)"
  by (simp add: panelErrorTimeout_def quiet_updatePanel)

lemma secondSettled_pages:
  "pagesInFlight (fst (secondSettled s p key r)) q = pagesInFlight s q"
  by (simp add: pagesInFlight_def filter_remove1 remove1_idem)


lemma afterStats_more [simp]:
  "linesPerPage (initializeViewer_afterStats s r) = linesPerPage s"
  "notifications (initializeViewer_afterStats s r) = notifications s"
  "fetchLog (initializeViewer_afterStats s r) =
     fetchLog s @ map (\<lambda>p. PageRequest p 0 (linesPerPage s) None) (filter (\<lambda>p. \<not> loading (logs s p)) panels)"
  by (simp_all add: initializeViewer_afterStats_def Let_def panels_def loadLogData_fetchLog)

lemma settled_offset_zero:
  "currentOffset (logs s q) = 0 \<Longrightarrow> currentOffset (logs (loadLogData_settled s p offset r) q) = 0"
  by (cases "q = p") (simp_all add: settled_currentOffset settled_other split: sum.splits)

lemma pages_remove_other:
  "\<not> pageRequestOf p x \<Longrightarrow> filter (pageRequestOf p) (remove1 x xs) = filter (pageRequestOf p) xs"
  by (simp add: filter_remove1 remove1_idem)

lemma pages_remove_own:
  "pageRequestOf p x \<Longrightarrow> x \<in> set xs \<Longrightarrow>
   length (filter (pageRequestOf p) (remove1 x xs)) = length (filter (pageRequestOf p) xs) - 1"
  by (simp add: filter_remove1 length_remove1)

lemma pages_initial_calls:
  "length (filter (pageRequestOf p) (map (\<lambda>q. PageRequest q 0 n None) (filter P panels))) = (if P p then 1 else 0)"
  by (cases p) (simp_all add: panels_def)

lemma guarded_loadLogData: "guarded s \<Longrightarrow> guarded (loadLogData s p offset search)"
  by (auto simp: guarded_def pagesInFlight_def loadLogData_inFlight)

lemma guarded_pageSettled:
  assumes "guarded s" and "PageRequest p offset (linesPerPage s) search \<in> set (inFlight s)"
  shows "guarded (pageSettled s p offset search r)"
proof -
  let ?x = "PageRequest p offset (linesPerPage s) search"
  have own: "pagesInFlight (pageSettled s p offset search r) p = pagesInFlight s p - 1"
    using assms(2) by (simp add: pagesInFlight_def pages_remove_own)
  have le: "pagesInFlight s p \<le> 1"
    using assms(1) by (simp add: guarded_def)
  have other: "pagesInFlight (pageSettled s p offset search r) q = pagesInFlight s q" if "q \<noteq> p" for q
    using that by (simp add: pagesInFlight_def pages_remove_other)
  show ?thesis
    unfolding guarded_def
  proof
    fix q
    show "pagesInFlight (pageSettled s p offset search r) q =
          (if loading (logs (pageSettled s p offset search r) q) then 1 else 0)"
    proof (cases "q = p")
      case True
      with own le show ?thesis by (simp add: settled_loading)
    next
      case False
      with other [OF False] assms(1) show ?thesis by (simp add: settled_loading guarded_def)
    qed
  qed
qed

lemma guarded_frame:
  assumes "guarded s"
    and "\<And>p. pagesInFlight s' p = pagesInFlight s p"
    and "\<And>p. loading (logs s' p) = loading (logs s p)"
  shows "guarded s'"
  using assms by (simp add: guarded_def)

lemma afterStats_pages:
  "pagesInFlight (initializeViewer_afterStats s r) p =
     pagesInFlight s p + (if loading (logs s p) then 0 else 1)"
proof -
  have "pagesInFlight (initializeViewer_afterStats s r) p =
        length (filter (pageRequestOf p) (remove1 StatsRequest (inFlight s)))
        + length (filter (pageRequestOf p)
            (map (\<lambda>q. PageRequest q 0 (linesPerPage s) None) (filter (\<lambda>q. \<not> loading (logs s q)) panels)))"
    by (simp only: pagesInFlight_def afterStats_inFlight filter_append length_append)
  also have "\<dots> = pagesInFlight s p + (if \<not> loading (logs s p) then 1 else 0)"
    by (simp only: pages_initial_calls pagesInFlight_def) (simp add: pages_remove_other)
  finally show ?thesis by simp
qed

lemma guarded_afterStats: "guarded s \<Longrightarrow> guarded (initializeViewer_afterStats s r)"
  by (simp add: guarded_def afterStats_pages afterStats_logs)

lemma guarded_constructed: "guarded constructed"
  by (simp add: guarded_def pagesInFlight_def constructed_def emptyPanel_def)

text \<open>
  Every step is quiet or is one of the four that load: the stats settling, a call of
  \<open>loadLogData\<close>, a page settling, a second settling.
\<close>

lemma step_elim:
  assumes "step s e = Some s'"
  obtains (Quiet) "quiet s s'"
    | (Stats) r where "StatsRequest \<in> set (inFlight s)" "s' = initializeViewer_afterStats s r"
    | (Call) t p offset search where "quiet s t" "s' = loadLogData t p offset search"
    | (Page) p offset search r where
        "PageRequest p offset (linesPerPage s) search \<in> set (inFlight s)"
        "s' = pageSettled s p offset search r"
    | (Second) p key r where "s' = fst (secondSettled s p key r)"
proof (cases e)
  case (StatsSettled r)
  with assms have "StatsRequest \<in> set (inFlight s)" "s' = initializeViewer_afterStats s r"
    by (simp_all split: if_splits)
  then show ?thesis by (rule Stats)
next
  case (CallLoadLogData p offset search)
  with assms have "s' = loadLogData s p offset search" by simp
  with quiet_refl [of s] show ?thesis by (rule Call)
next
  case (PageSettled p offset search r)
  with assms have "PageRequest p offset (linesPerPage s) search \<in> set (inFlight s)"
    "s' = pageSettled s p offset search r"
    by (simp_all split: if_splits)
  then show ?thesis by (rule Page)
next
  case (SelectSecond key)
  with assms have "s' = selectSecond s key" by simp
  then have "quiet s s'" by (simp add: quiet_selectSecond)
  then show ?thesis by (rule Quiet)
next
  case (SecondSettled p key r)
  with assms have "s' = fst (secondSettled s p key r)" by (simp split: if_splits)
  then show ?thesis by (rule Second)
next
  case (PanelErrorTimeout p)
  with assms have "s' = panelErrorTimeout s p" by simp
  then have "quiet s s'" by (simp add: quiet_panelErrorTimeout)
  then show ?thesis by (rule Quiet)
next
  case (Scroll p g)
  let ?t = "if (case selectedSecond s of Some k \<Rightarrow> k \<noteq> [] | None \<Rightarrow> False)
               \<and> \<not> isGroupSelectionActive s then clearSelection s else s"
  have q: "quiet s ?t" by (simp add: quiet_clearSelection quiet_refl)
  from Scroll assms have e: "s' = handleScroll ?t p g" by (simp add: scrollEvent_def)
  from handleScroll_cases [of ?t p g] show ?thesis
  proof
    assume "handleScroll ?t p g = ?t"
    with e q have "quiet s s'" by simp
    then show ?thesis by (rule Quiet)
  next
    assume "\<not> loading (logs ?t p) \<and> handleScroll ?t p g
      = loadLogData ?t p (currentOffset (logs ?t p) + length (visibleLines (logs ?t p))) []"
    with e have "s' = loadLogData ?t p (currentOffset (logs ?t p) + length (visibleLines (logs ?t p))) []"
      by simp
    with q show ?thesis by (rule Call)
  qed
next
  case ClearSelection
  with assms have "s' = clearSelection s" by simp
  then have "quiet s s'" by (simp add: quiet_clearSelection)
  then show ?thesis by (rule Quiet)
next
  case SelectionScrollTimer
  with assms have "s' = selectionScrollTimer s" by simp
  then have "quiet s s'" by (simp add: quiet_flags)
  then show ?thesis by (rule Quiet)
next
  case (SelectionReleaseTimer was)
  with assms have "s' = selectionReleaseTimer s was" by simp
  then have "quiet s s'" by (simp add: quiet_flags)
  then show ?thesis by (rule Quiet)
next
  case ToggleGroupBySecond
  with assms have "s' = toggleGroupBySecond s" by simp
  then have "quiet s s'" by (simp add: quiet_toggleGroupBySecond)
  then show ?thesis by (rule Quiet)
next
  case ToggleSyncScroll
  with assms have "s' = toggleSyncScroll s" by simp
  then have "quiet s s'" by (simp add: quiet_toggleSyncScroll)
  then show ?thesis by (rule Quiet)
next
  case (SetAutoScroll checked)
  with assms have "s' = setAutoScroll s checked" by simp
  then have "quiet s s'" by (simp add: quiet_flags)
  then show ?thesis by (rule Quiet)
next
  case (SetShowTimestamps checked)
  with assms have "s' = setShowTimestamps s checked" by simp
  then have "quiet s s'" by (simp add: quiet_setShowTimestamps)
  then show ?thesis by (rule Quiet)
qed


lemma quiet_offsets:
  "quiet s t \<Longrightarrow> \<forall>p. currentOffset (logs s p) = 0 \<Longrightarrow> currentOffset (logs t q) = 0"
  by (simp add: quiet_def)

lemma step_offsets:
  assumes z: "\<forall>p. currentOffset (logs s p) = 0" and st: "step s e = Some s'"
  shows "currentOffset (logs s' q) = 0"
  using st
proof (cases rule: step_elim)
  case Quiet
  then show ?thesis using z by (rule quiet_offsets)
next
  case (Stats r)
  with z show ?thesis by (simp add: afterStats_logs)
next
  case (Call t p offset search)
  have "\<forall>p. currentOffset (logs t p) = 0"
    using quiet_offsets [OF Call(1) z] by blast
  with Call(2) show ?thesis by simp
next
  case (Page p offset search r)
  with z show ?thesis by (simp add: settled_offset_zero)
next
  case (Second p key r)
  with z show ?thesis by simp
qed

lemma run_offsets:
  "\<forall>p. currentOffset (logs s p) = 0 \<Longrightarrow> run s es = Some s' \<Longrightarrow> currentOffset (logs s' q) = 0"
proof (induction es arbitrary: s)
  case Nil
  then show ?case by simp
next
  case (Cons e es)
  from Cons.prems(2) obtain t where t: "step s e = Some t" and r: "run t es = Some s'"
    by (auto split: option.splits)
  have "\<forall>p. currentOffset (logs t p) = 0"
    using step_offsets [OF Cons.prems(1) t] by blast
  from Cons.IH [OF this r] show ?case .
qed

lemma quiet_guarded: "quiet s t \<Longrightarrow> guarded s \<Longrightarrow> guarded t"
  by (simp add: quiet_def guarded_def)

lemma step_guarded:
  assumes g: "guarded s" and st: "step s e = Some s'"
  shows "guarded s'"
  using st
proof (cases rule: step_elim)
  case Quiet
  then show ?thesis using g by (rule quiet_guarded)
next
  case (Stats r)
  with g show ?thesis by (simp add: guarded_afterStats)
next
  case (Call t p offset search)
  from quiet_guarded [OF Call(1) g] Call(2) show ?thesis by (simp add: guarded_loadLogData)
next
  case (Page p offset search r)
  with g show ?thesis by (simp add: guarded_pageSettled)
next
  case (Second p key r)
  with g show ?thesis by (simp add: guarded_frame [OF g] secondSettled_pages)
qed

lemma run_guarded: "guarded s \<Longrightarrow> run s es = Some s' \<Longrightarrow> guarded s'"
proof (induction es arbitrary: s)
  case Nil
  then show ?case by simp
next
  case (Cons e es)
  from Cons.prems(2) obtain t where t: "step s e = Some t" and r: "run t es = Some s'"
    by (auto split: option.splits)
  from Cons.IH [OF step_guarded [OF Cons.prems(1) t] r] show ?case .
qed







section \<open>The claims about the lazy loader\<close>

lemma reachable_run: "run constructed es = Some s \<Longrightarrow> reachable s"
  by (auto simp: reachable_def)

lemma reachable_afterStatsOk: "reachable afterStatsOk"
  by (rule reachable_run [of "[StatsSettled okStats]"])
     (simp add: afterStatsOk_def constructed_def)

lemma callBurst_loading: "loading (logs s p) \<Longrightarrow> callBurst s p cs = s"
  by (induction cs) (simp_all add: callBurst_def loadLogData_def)

lemma callBurst_count:
  "\<not> loading (logs s p) \<Longrightarrow>
   length (fetchLog (callBurst s p cs)) = length (fetchLog s) + (if cs = [] then 0 else 1)"
proof (cases cs)
  case Nil
  then show ?thesis by (simp add: callBurst_def)
next
  case (Cons c cs')
  assume n: "\<not> loading (logs s p)"
  have "callBurst s p cs = callBurst (loadLogData s p (fst c) (snd c)) p cs'"
    by (simp add: Cons callBurst_def)
  also have "\<dots> = loadLogData s p (fst c) (snd c)"
    by (rule callBurst_loading) simp
  finally show ?thesis using n Cons by (simp add: loadLogData_fetchLog)
qed

text \<open>
  C10. In every reachable state every panel's \<open>currentOffset\<close> is 0: it is 0 when the
  constructor returns; the continuation of \<open>loadLogData\<close> sets it (to 0) only when the
  fetch succeeded and the offset is 0, and leaves it alone otherwise; the call of
  \<open>loadLogData\<close> and both halves of \<open>loadSecondFromPanel\<close> never change it.
\<close>

theorem C10_currentOffset_zero:
  "(reachable s \<longrightarrow> currentOffset (logs s p) = 0)
   \<and> currentOffset (logs constructed p) = 0
   \<and> currentOffset (logs (loadLogData_settled t p offset r) p)
       = (if succeeded r \<and> offset = 0 then 0 else currentOffset (logs t p))
   \<and> currentOffset (logs (loadLogData t p offset search) p) = currentOffset (logs t p)
   \<and> currentOffset (logs (fst (loadSecondFromPanel t p key)) p) = currentOffset (logs t p)
   \<and> currentOffset (logs (fst (secondSettled t p key r)) p) = currentOffset (logs t p)"
proof -
  have init: "\<forall>q. currentOffset (logs constructed q) = 0"
    by (simp add: constructed_def emptyPanel_def)
  have "currentOffset (logs s p) = 0" if "reachable s"
  proof -
    from that obtain es where "run constructed es = Some s"
      by (auto simp: reachable_def)
    from run_offsets [OF init this] show ?thesis .
  qed
  moreover have "currentOffset (logs (loadLogData_settled t p offset r) p)
       = (if succeeded r \<and> offset = 0 then 0 else currentOffset (logs t p))"
    by (simp add: settled_currentOffset succeeded_def split: sum.splits)
  ultimately show ?thesis using init by simp
qed

theorem C10_witness:
  "reachable afterStatsOk \<and> currentOffset (logs afterStatsOk bt) = 0"
  using C10_currentOffset_zero [of afterStatsOk bt] reachable_afterStatsOk by blast

text \<open>
  C2. In every reachable state a panel has at most one page request under way, and it has
  one exactly when its \<open>loading\<close> flag is set. A call of \<open>loadLogData\<close> on a loading panel
  returns the state as it is: no request, no change. The log of issued fetches grows by
  one for a call that is allowed and not at all for one that is not; so a burst of calls on
  an idle panel issues exactly one fetch.
\<close>

theorem C2_single_flight:
  "(reachable s \<longrightarrow> pagesInFlight s p \<le> 1 \<and> (loading (logs s p) \<longleftrightarrow> pagesInFlight s p = 1))
   \<and> (loading (logs t p) \<longrightarrow> loadLogData t p offset search = t)
   \<and> length (fetchLog (loadLogData t p offset search))
       = length (fetchLog t) + (if loading (logs t p) then 0 else 1)
   \<and> (\<not> loading (logs t p) \<longrightarrow>
        length (fetchLog (callBurst t p cs)) = length (fetchLog t) + (if cs = [] then 0 else 1))"
proof -
  have "guarded s" if "reachable s"
  proof -
    from that obtain es where "run constructed es = Some s"
      by (auto simp: reachable_def)
    from run_guarded [OF guarded_constructed this] show ?thesis .
  qed
  then have "reachable s \<longrightarrow> pagesInFlight s p \<le> 1 \<and> (loading (logs s p) \<longleftrightarrow> pagesInFlight s p = 1)"
    by (auto simp: guarded_def)
  moreover have "loading (logs t p) \<longrightarrow> loadLogData t p offset search = t"
    by (simp add: loadLogData_def)
  moreover have "length (fetchLog (loadLogData t p offset search))
       = length (fetchLog t) + (if loading (logs t p) then 0 else 1)"
    by (simp add: loadLogData_fetchLog)
  moreover have "\<not> loading (logs t p) \<longrightarrow>
        length (fetchLog (callBurst t p cs)) = length (fetchLog t) + (if cs = [] then 0 else 1)"
    using callBurst_count [of t p cs] by blast
  ultimately show ?thesis by blast
qed

theorem C2_witness:
  "reachable afterStatsOk \<and> loading (logs afterStatsOk bt)
   \<and> pagesInFlight afterStatsOk bt = 1
   \<and> loadLogData afterStatsOk bt 100 [] = afterStatsOk
   \<and> \<not> loading (logs constructed bt)
   \<and> length (fetchLog (callBurst constructed bt [(0, []), (100, []), (200, [])]))
       = length (fetchLog constructed) + 1"
proof -
  have l: "loading (logs afterStatsOk bt)"
    by (simp add: afterStatsOk_def afterStats_logs)
  have n: "\<not> loading (logs constructed bt)"
    by (simp add: constructed_def emptyPanel_def)
  from C2_single_flight [of afterStatsOk bt afterStatsOk 100 "[]"] reachable_afterStatsOk l
  have a: "pagesInFlight afterStatsOk bt = 1 \<and> loadLogData afterStatsOk bt 100 [] = afterStatsOk"
    by blast
  from C2_single_flight [of constructed bt constructed 0 "[]" "[(0, []), (100, []), (200, [])]"] n
  have "length (fetchLog (callBurst constructed bt [(0, []), (100, []), (200, [])]))
       = length (fetchLog constructed) + 1"
    by simp
  with a l n reachable_afterStatsOk show ?thesis by blast
qed

lemma loadPage_panel:
  assumes "\<not> loading (logs s p)"
  shows "visibleLines (logs (loadPage s p c) p) =
           (if succeeded (snd c) then (if fst c = 0 then [] else visibleLines (logs s p)) @ pageOf (snd c)
            else visibleLines (logs s p))"
    and "currentOffset (logs (loadPage s p c) p) =
           (if succeeded (snd c) \<and> fst c = 0 then 0 else currentOffset (logs s p))"
    and "\<not> loading (logs (loadPage s p c) p)"
  using assms
  by (simp_all add: loadPage_def settled_visibleLines settled_currentOffset settled_loading
        succeeded_def pageOf_def loadLogData_settled_def Let_def split: sum.splits)

lemma loadPages_append:
  assumes "\<not> loading (logs s p)"
    and "\<forall>c \<in> set cs. succeeded (snd c) \<and> fst c \<noteq> 0"
  shows "visibleLines (logs (loadPages s p cs) p) = visibleLines (logs s p) @ concat (map (\<lambda>c. pageOf (snd c)) cs)
         \<and> currentOffset (logs (loadPages s p cs) p) = currentOffset (logs s p)
         \<and> \<not> loading (logs (loadPages s p cs) p)"
  using assms
proof (induction cs arbitrary: s)
  case Nil
  then show ?case by (simp add: loadPages_def)
next
  case (Cons c cs)
  let ?t = "loadPage s p c"
  have c: "succeeded (snd c)" "fst c \<noteq> 0" using Cons.prems(2) by simp_all
  have t: "\<not> loading (logs ?t p)" using Cons.prems(1) by (rule loadPage_panel(3))
  have rest: "\<forall>c \<in> set cs. succeeded (snd c) \<and> fst c \<noteq> 0" using Cons.prems(2) by simp
  have step: "loadPages s p (c # cs) = loadPages ?t p cs" by (simp add: loadPages_def)
  from Cons.IH [OF t rest] show ?case
    by (simp add: step loadPage_panel(1,2) [OF Cons.prems(1)] c)
qed

text \<open>
  C1 (as amended). After a sequence of successful page loads on an idle panel with
  increasing offsets and offset 0 nowhere but possibly first, the buffer is the concatenation of the fetched pages in call order,
  preceded by the buffer held before the sequence unless the first call has offset 0;
  \<open>currentOffset\<close> is 0 when the first call has offset 0 and is otherwise what it was
  before. The counterexample: one load at offset 5 on the freshly constructed viewer leaves
  \<open>currentOffset\<close> at 0, not at 5.
\<close>

theorem C1_page_sequence:
  assumes "\<not> loading (logs s p)"
    and "cs \<noteq> []"
    and "\<forall>c \<in> set cs. succeeded (snd c)"
    and "sorted (map fst cs)"
    and "\<forall>c \<in> set (tl cs). fst c \<noteq> 0"
  shows "visibleLines (logs (loadPages s p cs) p)
           = (if fst (hd cs) = 0 then [] else visibleLines (logs s p))
             @ concat (map (\<lambda>c. pageOf (snd c)) cs)
         \<and> currentOffset (logs (loadPages s p cs) p)
           = (if fst (hd cs) = 0 then 0 else currentOffset (logs s p))"
proof -
  from assms(2) obtain c cs' where cs: "cs = c # cs'" by (cases cs) auto
  let ?t = "loadPage s p c"
  have c: "succeeded (snd c)" using assms(3) cs by simp
  have t: "\<not> loading (logs ?t p)" using assms(1) by (rule loadPage_panel(3))
  have rest: "\<forall>d \<in> set cs'. succeeded (snd d) \<and> fst d \<noteq> 0"
    using assms(3,5) cs by auto
  have step: "loadPages s p (c # cs') = loadPages ?t p cs'" by (simp add: loadPages_def)
  from loadPages_append [OF t rest] show ?thesis
    by (simp add: step cs loadPage_panel(1,2) [OF assms(1)] c)
qed

theorem C1_counterexample:
  "\<not> loading (logs constructed bt) \<and> succeeded (snd (hd page5)) \<and> sorted (map fst page5)
   \<and> tl page5 = [] \<and> fst (hd page5) = 5
   \<and> currentOffset (logs (loadPages constructed bt page5) bt) \<noteq> fst (hd page5)"
  by (simp add: page5_def constructed_def emptyPanel_def succeeded_def fetchOutcome_def loadPages_def
        loadPage_def settled_currentOffset)

theorem C1_witness:
  "\<not> loading (logs constructed bt) \<and> sorted (map fst pages012)
   \<and> fst (hd (tl pages012)) \<noteq> 0
   \<and> visibleLines (logs (loadPages constructed bt pages012) bt)
       = [lineWithKey 1 (Some ''t1''), lineWithKey 2 None, lineWithKey 3 (Some ''t2'')]
   \<and> currentOffset (logs (loadPages constructed bt pages012) bt) = 0"
proof -
  have a: "\<not> loading (logs constructed bt)" by (simp add: constructed_def emptyPanel_def)
  have b: "pages012 \<noteq> []" by (simp add: pages012_def)
  have c: "\<forall>c \<in> set pages012. succeeded (snd c)"
    by (simp add: pages012_def succeeded_def fetchOutcome_def)
  have d: "sorted (map fst pages012)" by (simp add: pages012_def)
  have e: "\<forall>c \<in> set (tl pages012). fst c \<noteq> 0" by (simp add: pages012_def)
  from C1_page_sequence [OF a b c d e] a d show ?thesis
    by (simp add: pages012_def pageOf_def fetchOutcome_def)
qed

lemma settled_failure_logs:
  "fetchOutcome r = Inl e \<Longrightarrow>
   logs (loadLogData_settled s p offset r)
     = (logs s)(p := (logs s p)\<lparr>element := \<lparr>children = [LoadFailed e], highlighted = None\<rparr>,
                                 loading := False\<rparr>)"
  by (simp add: loadLogData_settled_def Let_def)

text \<open>
  C6. When the fetch of a page load fails (the transport fails or the status is not OK),
  the panel's buffer, \<open>currentOffset\<close> and \<open>totalLines\<close> are as before, every other
  panel's state is untouched, the failing panel's element holds the inline error and
  nothing else, its \<open>loading\<close> flag is cleared, the index and the error positions are
  as before, and no notification is shown. For the whole call on an idle panel: the panel
  states afterwards differ from those before only in the element of the failing panel.
\<close>

theorem C6_failure_isolation:
  assumes "fetchOutcome r = Inl e"
  shows "visibleLines (logs (pageSettled s p offset search r) p) = visibleLines (logs s p)
       \<and> currentOffset (logs (pageSettled s p offset search r) p) = currentOffset (logs s p)
       \<and> totalLines (logs (pageSettled s p offset search r) p) = totalLines (logs s p)
       \<and> (\<forall>q. q \<noteq> p \<longrightarrow> logs (pageSettled s p offset search r) q = logs s q)
       \<and> children (element (logs (pageSettled s p offset search r) p)) = [LoadFailed e]
       \<and> \<not> loading (logs (pageSettled s p offset search r) p)
       \<and> secondIndex (loadLogData_settled s p offset r) = secondIndex s
       \<and> errorPositions (loadLogData_settled s p offset r) = errorPositions s
       \<and> notifications (pageSettled s p offset search r) = notifications s
       \<and> (\<not> loading (logs s p) \<longrightarrow>
            logs (loadPage s p (offset, r))
              = (logs s)(p := (logs s p)\<lparr>element := \<lparr>children = [LoadFailed e], highlighted = None\<rparr>\<rparr>))"
proof -
  have idx: "secondIndex (loadLogData_settled s p offset r) = secondIndex s
       \<and> errorPositions (loadLogData_settled s p offset r) = errorPositions s"
    using assms by (simp add: loadLogData_settled_def Let_def)
  have whole: "\<not> loading (logs s p) \<longrightarrow>
            logs (loadPage s p (offset, r))
              = (logs s)(p := (logs s p)\<lparr>element := \<lparr>children = [LoadFailed e], highlighted = None\<rparr>\<rparr>)"
  proof
    assume n: "\<not> loading (logs s p)"
    have same: "(logs s p)\<lparr>element := \<lparr>children = [LoadFailed e], highlighted = None\<rparr>, loading := False\<rparr>
          = (logs s p)\<lparr>element := \<lparr>children = [LoadFailed e], highlighted = None\<rparr>\<rparr>"
      using n by (cases "logs s p") simp
    have "logs (loadPage s p (offset, r))
          = (logs s)(p := (logs s p)\<lparr>element := \<lparr>children = [LoadFailed e], highlighted = None\<rparr>,
                                      loading := False\<rparr>)"
      using n by (simp add: loadPage_def settled_failure_logs [OF assms])
    then show "logs (loadPage s p (offset, r))
              = (logs s)(p := (logs s p)\<lparr>element := \<lparr>children = [LoadFailed e], highlighted = None\<rparr>\<rparr>)"
      by (simp only: same)
  qed
  have panel: "visibleLines (logs (pageSettled s p offset search r) p) = visibleLines (logs s p)
       \<and> currentOffset (logs (pageSettled s p offset search r) p) = currentOffset (logs s p)
       \<and> totalLines (logs (pageSettled s p offset search r) p) = totalLines (logs s p)
       \<and> (\<forall>q. q \<noteq> p \<longrightarrow> logs (pageSettled s p offset search r) q = logs s q)
       \<and> children (element (logs (pageSettled s p offset search r) p)) = [LoadFailed e]
       \<and> \<not> loading (logs (pageSettled s p offset search r) p)
       \<and> notifications (pageSettled s p offset search r) = notifications s"
    by (simp add: settled_failure_logs [OF assms])
  from panel idx whole show ?thesis by blast
qed

theorem C6_witness:
  "fetchOutcome (HttpResponse 500 []) = Inl (HttpStatus 500)
   \<and> out \<noteq> bt
   \<and> visibleLines (logs failedBt bt) = visibleLines (logs afterStatsOk bt)
   \<and> logs failedBt out = logs afterStatsOk out
   \<and> children (element (logs failedBt bt)) = [LoadFailed (HttpStatus 500)]"
proof -
  have f: "fetchOutcome (HttpResponse 500 []) = Inl (HttpStatus 500)"
    by (simp add: fetchOutcome_def)
  from C6_failure_isolation [OF f, of afterStatsOk bt 0 None] f show ?thesis
    by (simp add: failedBt_def)
qed




section \<open>The claim about initialisation\<close>






lemma initRun_reachable: "reachable (initRun r0 rb ro rr)"
  by (rule reachable_run [of "[StatsSettled r0, PageSettled bt 0 None rb, PageSettled out 0 None ro,
          PageSettled rs 0 None rr]"])
     (simp add: initRun_def afterStats_inFlight panels_def constructed_def emptyPanel_def)



lemma reachable_step: "reachable s \<Longrightarrow> step s e = Some s' \<Longrightarrow> reachable s'"
proof -
  assume "reachable s" and e: "step s e = Some s'"
  then obtain es where es: "run constructed es = Some s" by (auto simp: reachable_def)
  have "run t (xs @ [e]) = Some s'" if "run t xs = Some s" for t xs
    using that e by (induction xs arbitrary: t) (auto split: option.splits)
  from this [OF es] show ?thesis by (auto simp: reachable_def)
qed






section \<open>The claims about the second index and the error positions\<close>

lemma initDone_initRun:
  "initDone = initRun okStats (HttpResponse 200 firstPage) (HttpResponse 200 []) (HttpResponse 200 [])"
  by (simp add: initDone_def initRun_def loadedBt_def afterStatsOk_def)

lemma reachable_initDone: "reachable initDone"
  by (simp add: initDone_initRun initRun_reachable)

lemma reachable_reloadedBt: "reachable reloadedBt"
proof -
  have a: "reachable (loadLogData initDone bt 0 [])"
    by (rule reachable_step [OF reachable_initDone, of "CallLoadLogData bt 0 []"]) simp
  have m: "PageRequest bt 0 (linesPerPage initDone) None
           \<in> set (inFlight (loadLogData initDone bt 0 []))"
    by code_simp
  show ?thesis
    by (rule reachable_step [OF a, of "PageSettled bt 0 None (HttpResponse 200 firstPage)"])
       (simp add: m reloadedBt_def)
qed

lemma reachable_appendedBt: "reachable appendedBt"
proof -
  have a: "reachable (scrollEvent initDone bt nearBottom)"
    by (rule reachable_step [OF reachable_initDone, of "Scroll bt nearBottom"]) simp
  have m: "PageRequest bt 2 (linesPerPage (scrollEvent initDone bt nearBottom)) None
           \<in> set (inFlight (scrollEvent initDone bt nearBottom))"
    by code_simp
  show ?thesis
    by (rule reachable_step [OF a, of "PageSettled bt 2 None (HttpResponse 200 [errorLine 3 (Some ''t2'')])"])
       (simp add: m appendedBt_def)
qed

text \<open>
  C3. The claim asks that every line with a key in a buffer is in the index exactly once
  under its key and panel. After initialisation and one reload of bt at offset 0 that
  fetches the same two lines, the buffer holds the two lines once and the index holds
  each of them twice: the replacing branch of \<open>loadLogData\<close> replaces the buffer and
  appends to the index. (Lines are compared by their fields, the id among them.)
\<close>

theorem C3_reload_duplicates_index:
  "reachable reloadedBt
   \<and> visibleLines (logs reloadedBt bt) = firstPage
   \<and> indexed reloadedBt ''t1'' bt = firstPage @ firstPage"
proof -
  have "visibleLines (logs reloadedBt bt) = firstPage" by code_simp
  moreover have "indexed reloadedBt ''t1'' bt = firstPage @ firstPage" by code_simp
  ultimately show ?thesis using reachable_reloadedBt by blast
qed

text \<open>
  C4. The claim asks that the error positions hold every error line once, with the line's
  absolute position as offset. After initialisation and one appended page at offset 2 whose
  only line is an error, that line is at buffer index 2 and its entry has offset 0:
  \<open>updateErrorPositionsFromNewContent\<close> counts the index within the new lines. After a
  reload of bt at offset 0 the error of line 2 is listed twice.
\<close>

theorem C4_error_positions:
  "reachable appendedBt
   \<and> visibleLines (logs appendedBt bt) = firstPage @ [errorLine 3 (Some ''t2'')]
   \<and> currentOffset (logs appendedBt bt) = 0
   \<and> errorsOf appendedBt bt = [ErrorPosition 2 ''error'' 1, ErrorPosition 3 ''error'' 0]
   \<and> reachable reloadedBt
   \<and> errorsOf initDone bt = [ErrorPosition 2 ''error'' 1]
   \<and> errorsOf reloadedBt bt = [ErrorPosition 2 ''error'' 1, ErrorPosition 2 ''error'' 1]"
proof -
  have "visibleLines (logs appendedBt bt) = firstPage @ [errorLine 3 (Some ''t2'')]" by code_simp
  moreover have "currentOffset (logs appendedBt bt) = 0" by code_simp
  moreover have "errorsOf appendedBt bt = [ErrorPosition 2 ''error'' 1, ErrorPosition 3 ''error'' 0]"
    by code_simp
  moreover have "errorsOf initDone bt = [ErrorPosition 2 ''error'' 1]" by code_simp
  moreover have "errorsOf reloadedBt bt = [ErrorPosition 2 ''error'' 1, ErrorPosition 2 ''error'' 1]"
    by code_simp
  ultimately show ?thesis using reachable_appendedBt reachable_reloadedBt by blast
qed

section \<open>The claim about scroll synchronisation\<close>




end
